theory Spec2Isabelle
  imports Main "HOL-Library.Multiset"
begin

section \<open>Ordered project states and issue numbering of the project-management API\<close>

text \<open>
  The handlers of \<^verbatim>\<open>controllers/v1/project_state.go\<close> and
  \<^verbatim>\<open>controllers/v1/issue.go\<close> run inside one database transaction each. A table is the
  list of its rows, a transaction works on a copy of the tables, \<^verbatim>\<open>tx.Rollback()\<close>
  returns the tables as they were and \<^verbatim>\<open>CommitTransaction\<close> returns the copy. Every
  handler returns the HTTP status it sends together with the tables it leaves behind.
  Failures of the store itself (a lost connection) are not modelled; a lookup that finds
  no row is. Rows are keyed by \<open>ID\<close>, the primary key of both tables; the sources
  declare no other constraint, and none is assumed on the sequence columns. The path
  parameters are taken as \<^verbatim>\<open>utils.ConvertID\<close> hands them on, and the checks of the route's
  validators, which live outside these sources, are not part of the handlers modelled.
\<close>

subsection \<open>Data model\<close>

type_synonym uuid = string
type_synonym time = nat

text \<open>Go's conversion \<^verbatim>\<open>int32(x)\<close> of a 64-bit integer: it keeps the low 32 bits, signed.\<close>

definition int32 :: "int \<Rightarrow> int" where
  "int32 x = (x + 2147483648) mod 4294967296 - 2147483648"

text \<open>\<^verbatim>\<open>v1.ProjectState\<close>, with the columns the handlers read and write.\<close>

record ProjectState =
  ID :: uuid
  Name :: string
  ProjectID :: uuid
  Sequence :: int
  CreatedBy :: string
  DeletedAt :: "time option"

text \<open>\<^verbatim>\<open>v1.Issue\<close>, likewise.\<close>

record Issue =
  IssueID :: uuid
  Title :: string
  IssueProjectID :: uuid
  StateID :: uuid
  ParentID :: "uuid option"
  SequenceID :: int
  IssueDeletedAt :: "time option"

record db =
  projects :: "uuid list"
  project_states :: "ProjectState list"
  issues :: "Issue list"

datatype status =
    StatusOK
  | StatusCreated
  | StatusNoContent
  | StatusBadRequest
  | StatusNotFound
  | StatusConflict
  | StatusInternalServerError

text \<open>
  \<^verbatim>\<open>utils.IsUserPartOfRole\<close> gives \<open>None\<close> when the user is no member of the project and
  the member's role otherwise; the state handlers let only managers and owners through.
\<close>

definition role_ok :: "string option \<Rightarrow> bool" where
  "role_ok role = (case role of None \<Rightarrow> False | Some r \<Rightarrow> r = ''Manager'' \<or> r = ''Owner'')"

subsection \<open>Writing rows\<close>

text \<open>
  \<^verbatim>\<open>tx.Save(&row)\<close> writes every column of the row whose primary key is the row's
  \<open>ID\<close>, and inserts the row when the key is new.
\<close>

fun save_state :: "ProjectState \<Rightarrow> ProjectState list \<Rightarrow> ProjectState list" where
  "save_state r [] = [r]"
| "save_state r (x # xs) = (if ID x = ID r then r # xs else x # save_state r xs)"

subsection \<open>CreateProjectState\<close>

text \<open>
  The count runs over \<^verbatim>\<open>Where("project_id = ?", ProjectID)\<close> alone. The field
  \<open>DeletedAt\<close> is a plain pointer to a time (the handlers assign \<^verbatim>\<open>&now\<close> to it), so
  the ORM adds no filter of its own and soft-deleted rows are counted too. The new row's
  key \<open>newID\<close> comes from the store; \<^verbatim>\<open>utils.CreateWithRollback\<close> rolls back when the
  insert fails.
\<close>

definition existingCount :: "uuid \<Rightarrow> ProjectState list \<Rightarrow> int" where
  "existingCount pid rows = int (length (filter (\<lambda>s. ProjectID s = pid) rows))"

definition CreateProjectState ::
  "string option \<Rightarrow> uuid \<Rightarrow> string \<Rightarrow> string \<Rightarrow> uuid \<Rightarrow> db \<Rightarrow> status \<times> db" where
  "CreateProjectState role pid req_name email newID d =
     (if \<not> role_ok role then (StatusNotFound, d)
      else
        let projectState =
              \<lparr>ID = newID, Name = req_name, ProjectID = pid,
               Sequence = int32 (existingCount pid (project_states d) + 1),
               CreatedBy = email, DeletedAt = None\<rparr>
        in if newID \<in> set (map ID (project_states d)) then (StatusInternalServerError, d)
           else (StatusCreated, d\<lparr>project_states := project_states d @ [projectState]\<rparr>))"

subsection \<open>DeleteProjectStateByID\<close>

text \<open>
  The rows still alive in the project, \<^verbatim>\<open>Order("sequence ASC")\<close>. The store leaves the
  order of rows with equal sequence open; the model keeps them in table order.
\<close>

definition live_in :: "uuid \<Rightarrow> ProjectState \<Rightarrow> bool" where
  "live_in pid s = (ProjectID s = pid \<and> DeletedAt s = None)"

definition remainingStates :: "uuid \<Rightarrow> ProjectState list \<Rightarrow> ProjectState list" where
  "remainingStates pid rows = sort_key Sequence (filter (live_in pid) rows)"

text \<open>
  The loop \<^verbatim>\<open>for i, state := range remainingStates\<close>: each row read by the query is
  saved with \<open>Sequence = int32(i + 1)\<close>. The second component lists the keys of the rows
  saved, one entry for each call of \<^verbatim>\<open>tx.Save\<close>.
\<close>

fun reset_sequences ::
  "nat \<Rightarrow> ProjectState list \<Rightarrow> ProjectState list \<times> uuid list \<Rightarrow> ProjectState list \<times> uuid list" where
  "reset_sequences i [] t = t"
| "reset_sequences i (state # rest) (rows, saved) =
     reset_sequences (Suc i) rest
       (save_state (state\<lparr>Sequence := int32 (int i + 1)\<rparr>) rows, saved @ [ID state])"

text \<open>The block "Reset sequence numbers for remaining states": the query and the loop.\<close>

definition resequence :: "uuid \<Rightarrow> ProjectState list \<Rightarrow> ProjectState list \<times> uuid list" where
  "resequence pid rows = reset_sequences 0 (remainingStates pid rows) (rows, [])"

definition issueCount :: "uuid \<Rightarrow> Issue list \<Rightarrow> nat" where
  "issueCount sid rows = length (filter (\<lambda>i. StateID i = sid \<and> IssueDeletedAt i = None) rows)"

definition DeleteProjectStateByID ::
  "string option \<Rightarrow> uuid \<Rightarrow> uuid \<Rightarrow> time \<Rightarrow> db \<Rightarrow> status \<times> db" where
  "DeleteProjectStateByID role pid sid now d =
     (if \<not> role_ok role then (StatusNotFound, d)
      else case find (\<lambda>s. ID s = sid \<and> ProjectID s = pid \<and> DeletedAt s = None) (project_states d) of
        None \<Rightarrow> (StatusNotFound, d)
      | Some projectState \<Rightarrow>
          if issueCount sid (issues d) > 0 then (StatusConflict, d)
          else
            let rows1 = save_state (projectState\<lparr>DeletedAt := Some now\<rparr>) (project_states d)
            in (StatusNoContent, d\<lparr>project_states := fst (resequence pid rows1)\<rparr>))"

subsection \<open>UpdateProjectStatesSequence\<close>

text \<open>
  The loop over \<^verbatim>\<open>req.StageSequence\<close>: the row is looked up by
  \<^verbatim>\<open>"id = ? AND project_id = ?"\<close> (soft-deleted rows match) and saved with
  \<open>Sequence = int32(index + 1)\<close>; the first id without a row ends the loop with an error.
\<close>

fun update_sequences :: "nat \<Rightarrow> uuid list \<Rightarrow> uuid \<Rightarrow> ProjectState list \<Rightarrow> ProjectState list option" where
  "update_sequences index [] pid rows = Some rows"
| "update_sequences index (stageID # rest) pid rows =
     (case find (\<lambda>s. ID s = stageID \<and> ProjectID s = pid) rows of
        None \<Rightarrow> None
      | Some projectState \<Rightarrow>
          update_sequences (Suc index) rest pid
            (save_state (projectState\<lparr>Sequence := int32 (int index + 1)\<rparr>) rows))"

definition UpdateProjectStatesSequence ::
  "string option \<Rightarrow> uuid \<Rightarrow> uuid list \<Rightarrow> db \<Rightarrow> status \<times> db" where
  "UpdateProjectStatesSequence role pid StageSequence d =
     (if \<not> role_ok role then (StatusNotFound, d)
      else case update_sequences 0 StageSequence pid (project_states d) of
        None \<Rightarrow> (StatusNotFound, d)
      | Some rows \<Rightarrow> (StatusOK, d\<lparr>project_states := rows\<rparr>))"

subsection \<open>CreateIssue and DeleteIssue\<close>

text \<open>
  The request as the handler sees it after parsing: \<^verbatim>\<open>time.Parse\<close> of the two dates and
  \<^verbatim>\<open>utils.ConvertID\<close> of the state id give \<open>None\<close> on a malformed value; the parent
  id is absent (the empty string), malformed, or an id.
\<close>

datatype parent_ref = NoParent | BadParent | Parent uuid

record IssueRequest =
  ReqTitle :: string
  ReqStartDate :: "time option"
  ReqEndDate :: "time option"
  ReqStateID :: "uuid option"
  ReqParentID :: parent_ref

text \<open>
  \<^verbatim>\<open>COALESCE(MAX(CAST(sequence_id AS INTEGER)), 0)\<close> over
  \<^verbatim>\<open>"project_id = ? AND deleted_at IS NULL"\<close>.
\<close>

definition live_issue :: "uuid \<Rightarrow> Issue \<Rightarrow> bool" where
  "live_issue pid i = (IssueProjectID i = pid \<and> IssueDeletedAt i = None)"

definition MaxSeq :: "uuid \<Rightarrow> Issue list \<Rightarrow> int" where
  "MaxSeq pid rows =
     (case map SequenceID (filter (live_issue pid) rows) of
        [] \<Rightarrow> 0
      | x # xs \<Rightarrow> fold max xs x)"

text \<open>
  The parent lookup: \<open>None\<close> when the handler gives up (malformed id, or no live issue
  with that id), otherwise the value stored in \<open>ParentID\<close>.
\<close>

definition parentIssue :: "parent_ref \<Rightarrow> Issue list \<Rightarrow> uuid option option" where
  "parentIssue ref rows =
     (case ref of
        NoParent \<Rightarrow> Some None
      | BadParent \<Rightarrow> None
      | Parent parentID \<Rightarrow>
          (case find (\<lambda>i. IssueID i = parentID \<and> IssueDeletedAt i = None) rows of
             None \<Rightarrow> None
           | Some p \<Rightarrow> Some (Some (IssueID p))))"

definition CreateIssue :: "bool \<Rightarrow> uuid \<Rightarrow> IssueRequest \<Rightarrow> uuid \<Rightarrow> db \<Rightarrow> status \<times> db" where
  "CreateIssue authorized pid req newID d =
     (if \<not> authorized then (StatusNotFound, d)
      else if pid \<notin> set (projects d) then (StatusNotFound, d)
      else
        let sequenceID = MaxSeq pid (issues d) + 1 in
        (case ReqStartDate req of
           None \<Rightarrow> (StatusBadRequest, d)
         | Some startDate \<Rightarrow>
        (case ReqEndDate req of
           None \<Rightarrow> (StatusBadRequest, d)
         | Some endDate \<Rightarrow>
        (case ReqStateID req of
           None \<Rightarrow> (StatusInternalServerError, d)
         | Some stateID \<Rightarrow>
        (case parentIssue (ReqParentID req) (issues d) of
           None \<Rightarrow> (StatusInternalServerError, d)
         | Some parent \<Rightarrow>
            let issue =
                  \<lparr>IssueID = newID, Title = ReqTitle req, IssueProjectID = pid,
                   StateID = stateID, ParentID = parent,
                   SequenceID = int32 sequenceID, IssueDeletedAt = None\<rparr>
            in if newID \<in> set (map IssueID (issues d)) then (StatusInternalServerError, d)
               else
                 (case find (\<lambda>s. ID s = stateID \<and> ProjectID s = pid \<and> DeletedAt s = None)
                         (project_states d) of
                    None \<Rightarrow> (StatusNotFound, d)
                  | Some state \<Rightarrow> (StatusCreated, d\<lparr>issues := issues d @ [issue]\<rparr>)))))))"

text \<open>
  \<^verbatim>\<open>tx.Model(&Issue).Update("deleted_at", time.Now())\<close> sets the column on the row with the
  key of the issue found; nothing else is touched.
\<close>

definition DeleteIssue :: "bool \<Rightarrow> uuid \<Rightarrow> uuid \<Rightarrow> time \<Rightarrow> db \<Rightarrow> status \<times> db" where
  "DeleteIssue authorized pid iid now d =
     (if \<not> authorized then (StatusNotFound, d)
      else case find (\<lambda>i. IssueID i = iid \<and> IssueDeletedAt i = None \<and> IssueProjectID i = pid)
                  (issues d) of
        None \<Rightarrow> (StatusNotFound, d)
      | Some Issue \<Rightarrow>
          (StatusNoContent,
           d\<lparr>issues := map (\<lambda>i. if IssueID i = IssueID Issue
                                 then i\<lparr>IssueDeletedAt := Some now\<rparr> else i) (issues d)\<rparr>))"

text \<open>A history of requests against the issue handlers, replayed from the left.\<close>

datatype issue_op =
    OpCreateIssue bool uuid IssueRequest uuid
  | OpDeleteIssue bool uuid uuid time

fun apply_issue_op :: "issue_op \<Rightarrow> db \<Rightarrow> db" where
  "apply_issue_op (OpCreateIssue authorized pid req newID) d = snd (CreateIssue authorized pid req newID d)"
| "apply_issue_op (OpDeleteIssue authorized pid iid now) d = snd (DeleteIssue authorized pid iid now d)"

fun apply_issue_ops :: "issue_op list \<Rightarrow> db \<Rightarrow> db" where
  "apply_issue_ops [] d = d"
| "apply_issue_ops (op # ops) d = apply_issue_ops ops (apply_issue_op op d)"

subsection \<open>Notions the properties are stated with\<close>

text \<open>The live states of a project, the row a key holds, and density of the numbering.\<close>

definition live_states :: "uuid \<Rightarrow> db \<Rightarrow> ProjectState list" where
  "live_states pid d = filter (live_in pid) (project_states d)"


definition dense :: "uuid \<Rightarrow> db \<Rightarrow> bool" where
  "dense pid d =
     (mset (map Sequence (live_states pid d)) = mset [1..int (length (live_states pid d))])"


definition live_issues :: "uuid \<Rightarrow> db \<Rightarrow> Issue list" where
  "live_issues pid d = filter (live_issue pid) (issues d)"

text \<open>
  The position of the last occurrence of a key in a reorder list, counted from 0: the
  entry whose write is the one that stays.
\<close>

fun last_position :: "uuid list \<Rightarrow> uuid \<Rightarrow> nat option" where
  "last_position [] k = None"
| "last_position (a # as) k =
     (case last_position as k of
        Some j \<Rightarrow> Some (Suc j)
      | None \<Rightarrow> if a = k then Some 0 else None)"

text \<open>
  What a successful reorder leaves in a row: a row of the project whose key is in the
  list gets one plus the position of the key's last occurrence, any other row stays.
\<close>

definition reordered :: "uuid list \<Rightarrow> uuid \<Rightarrow> ProjectState \<Rightarrow> ProjectState" where
  "reordered ids pid x =
     (case (if ProjectID x = pid then last_position ids (ID x) else None) of
        None \<Rightarrow> x
      | Some j \<Rightarrow> x\<lparr>Sequence := int32 (int j + 1)\<rparr>)"

text \<open>
  The sequence the specification asks of a new state: one more than the largest sequence
  among the live states of the project, and 1 when there is none.
\<close>

definition spec_next_sequence :: "uuid \<Rightarrow> db \<Rightarrow> int" where
  "spec_next_sequence pid d =
     (case map Sequence (live_states pid d) of
        [] \<Rightarrow> 0
      | x # xs \<Rightarrow> fold max xs x) + 1"

text \<open>
  The largest sequence number among the live issues of a project, 0 when there is none,
  in the words of the specification.
\<close>

definition spec_max_sequence :: "uuid \<Rightarrow> db \<Rightarrow> int" where
  "spec_max_sequence pid d =
     (if live_issues pid d = [] then 0 else Max (set (map SequenceID (live_issues pid d))))"

subsection \<open>Proof devices\<close>

text \<open>
  The row a key holds once the loop of \<open>reset_sequences\<close> has run over the rows read
  by the query, and the row a key holds once the loop of \<open>update_sequences\<close> has run over
  the reorder list. Both loops are shown to map these over the table.
\<close>

fun renum :: "nat \<Rightarrow> ProjectState list \<Rightarrow> ProjectState \<Rightarrow> ProjectState" where
  "renum i [] x = x"
| "renum i (s # rest) x =
     (if ID x = ID s then s\<lparr>Sequence := int32 (int i + 1)\<rparr> else renum (Suc i) rest x)"

fun reorder :: "nat \<Rightarrow> uuid list \<Rightarrow> uuid \<Rightarrow> ProjectState \<Rightarrow> ProjectState" where
  "reorder i [] pid x = x"
| "reorder i (k # ks) pid x =
     reorder (Suc i) ks pid
       (if ID x = k \<and> ProjectID x = pid then x\<lparr>Sequence := int32 (int i + 1)\<rparr> else x)"

text \<open>
  The live issues of the project \<open>q\<close> carry pairwise different numbers, all of them
  32-bit values up to \<open>B\<close>.
\<close>

definition numbered :: "uuid \<Rightarrow> int \<Rightarrow> db \<Rightarrow> bool" where
  "numbered q B d =
     (distinct (map SequenceID (live_issues q d))
      \<and> (\<forall>i\<in>set (live_issues q d). - 2147483648 \<le> SequenceID i \<and> SequenceID i \<le> B))"

subsection \<open>Example tables\<close>

text \<open>Rows of one project \<open>P\<close>, used to run the handlers on concrete tables.\<close>

definition state_row :: "uuid \<Rightarrow> int \<Rightarrow> time option \<Rightarrow> ProjectState" where
  "state_row k n del =
     \<lparr>ID = k, Name = k, ProjectID = ''P'', Sequence = n, CreatedBy = ''owner'', DeletedAt = del\<rparr>"

definition issue_row :: "uuid \<Rightarrow> uuid \<Rightarrow> int \<Rightarrow> time option \<Rightarrow> Issue" where
  "issue_row k sid n del =
     \<lparr>IssueID = k, Title = k, IssueProjectID = ''P'', StateID = sid, ParentID = None,
      SequenceID = n, IssueDeletedAt = del\<rparr>"

definition board :: "ProjectState list \<Rightarrow> db" where
  "board rows = \<lparr>projects = [''P''], project_states = rows, issues = []\<rparr>"

definition board4 :: db where
  "board4 = board [state_row ''A'' 1 None, state_row ''B'' 2 None, state_row ''C'' 3 None,
                   state_row ''D'' 4 None]"

definition board4_soft_deleted_B :: db where
  "board4_soft_deleted_B = board [state_row ''A'' 1 None, state_row ''B'' 2 (Some 7),
                                  state_row ''C'' 3 None, state_row ''D'' 4 None]"

definition board4_without_B :: db where
  "board4_without_B = board [state_row ''A'' 1 None, state_row ''B'' 2 (Some 7),
                             state_row ''C'' 2 None, state_row ''D'' 3 None]"

definition board3 :: db where
  "board3 = board [state_row ''A'' 1 None, state_row ''B'' 2 None, state_row ''C'' 3 None]"

definition board_with_removed :: db where
  "board_with_removed = board [state_row ''A'' 1 None, state_row ''B'' 2 (Some 5)]"

definition board4_reversed :: db where
  "board4_reversed = board [state_row ''A'' 4 None, state_row ''B'' 3 None, state_row ''C'' 2 None,
                            state_row ''D'' 1 None]"

definition board5 :: db where
  "board5 = board [state_row ''A'' 1 None, state_row ''B'' 2 None, state_row ''C'' 3 None,
                   state_row ''D'' 4 None, state_row ''E'' 5 None]"

definition issue_request :: "string \<Rightarrow> uuid \<Rightarrow> IssueRequest" where
  "issue_request title sid =
     \<lparr>ReqTitle = title, ReqStartDate = Some 1, ReqEndDate = Some 2, ReqStateID = Some sid,
      ReqParentID = NoParent\<rparr>"

definition board3_with_issues :: db where
  "board3_with_issues = board3\<lparr>issues := [issue_row ''I1'' ''A'' 3 None, issue_row ''I2'' ''A'' 7 (Some 4)]\<rparr>"

text \<open>A project whose only live issue holds the largest 32-bit number.\<close>

definition board3_at_last_number :: db where
  "board3_at_last_number = board3\<lparr>issues := [issue_row ''I1'' ''A'' 2147483647 None]\<rparr>"

text \<open>Create an issue, delete it, create another.\<close>

definition issue_history :: "issue_op list" where
  "issue_history =
     [OpCreateIssue True ''P'' (issue_request ''I3'' ''A'') ''I3'',
      OpDeleteIssue True ''P'' ''I3'' 9,
      OpCreateIssue True ''P'' (issue_request ''I4'' ''A'') ''I4'']"

section \<open>Facts about the loops\<close>

subsection \<open>Saving rows and the compaction loop\<close>

lemma int32_id: "- 2147483648 \<le> x \<Longrightarrow> x < 2147483648 \<Longrightarrow> int32 x = x"
  by (simp add: int32_def)

lemma save_state_map:
  "ID r \<in> set (map ID rows) \<Longrightarrow> distinct (map ID rows) \<Longrightarrow>
   save_state r rows = map (\<lambda>x. if ID x = ID r then r else x) rows"
proof (induction rows)
  case Nil
  then show ?case by simp
next
  case (Cons x xs)
  show ?case
  proof (cases "ID x = ID r")
    case True
    from Cons.prems(2) have "ID x \<notin> ID ` set xs" by simp
    with True have "\<forall>y\<in>set xs. ID y \<noteq> ID r" by (metis imageI)
    then have "map (\<lambda>x. if ID x = ID r then r else x) xs = xs"
      by (simp add: map_idI)
    with True show ?thesis by simp
  next
    case False
    with Cons show ?thesis by auto
  qed
qed

lemma renum_other: "ID x \<notin> set (map ID rem) \<Longrightarrow> renum i rem x = x"
  by (induction rem arbitrary: i) auto

lemma ID_renum: "ID (renum i rem x) = ID x"
  by (induction rem arbitrary: i) auto

lemma reset_sequences_map:
  "distinct (map ID rem) \<Longrightarrow> distinct (map ID rows) \<Longrightarrow> set (map ID rem) \<subseteq> set (map ID rows) \<Longrightarrow>
   reset_sequences i rem (rows, saved) = (map (renum i rem) rows, saved @ map ID rem)"
proof (induction rem arbitrary: i rows saved)
  case Nil
  then show ?case by simp
next
  case (Cons s rest)
  let ?s' = "s\<lparr>Sequence := int32 (int i + 1)\<rparr>"
  let ?rows1 = "map (\<lambda>x. if ID x = ID s then ?s' else x) rows"
  have sv: "save_state ?s' rows = ?rows1"
    using save_state_map [of ?s' rows] Cons.prems by simp
  have ids: "map ID ?rows1 = map ID rows" by (induction rows) auto
  have "reset_sequences (Suc i) rest (?rows1, saved @ [ID s])
        = (map (renum (Suc i) rest) ?rows1, (saved @ [ID s]) @ map ID rest)"
  proof (rule Cons.IH)
    show "distinct (map ID rest)" using Cons.prems(1) by simp
    show "distinct (map ID ?rows1)" using Cons.prems(2) by (simp only: ids)
    show "set (map ID rest) \<subseteq> set (map ID ?rows1)" using Cons.prems(3) by (simp only: ids) simp
  qed
  moreover have "map (renum (Suc i) rest) ?rows1 = map (renum i (s # rest)) rows"
    using Cons.prems(1) by (auto simp: renum_other)
  ultimately show ?case by (simp add: sv)
qed


lemma renum_self:
  "distinct (map ID rem) \<Longrightarrow> j < length rem \<Longrightarrow>
   renum i rem (rem ! j) = (rem ! j)\<lparr>Sequence := int32 (int (i + j) + 1)\<rparr>"
proof (induction rem arbitrary: i j)
  case Nil
  then show ?case by simp
next
  case (Cons s rest)
  show ?case
  proof (cases j)
    case 0
    then show ?thesis by simp
  next
    case (Suc j')
    with Cons.prems have "rest ! j' \<in> set rest" by simp
    with Cons.prems(1) have "ID (rest ! j') \<noteq> ID s" by (metis distinct.simps(2) imageI list.simps(9) list.set_map)
    with Suc Cons show ?thesis by simp
  qed
qed

lemma map_renum_self:
  assumes "distinct (map ID rem)"
  shows "map (renum i rem) rem =
         map (\<lambda>j. (rem ! j)\<lparr>Sequence := int32 (int (i + j) + 1)\<rparr>) [0..<length rem]"
  by (rule nth_equalityI) (simp_all add: renum_self [OF assms])

lemma renum_frame:
  assumes "\<forall>s\<in>set rem. ID s = ID x \<longrightarrow> s = x"
  shows "\<exists>v. renum i rem x = x\<lparr>Sequence := v\<rparr>"
  using assms
proof (induction rem arbitrary: i)
  case Nil
  have "x = x\<lparr>Sequence := Sequence x\<rparr>" by simp
  then show ?case by (metis renum.simps(1))
next
  case (Cons s rest)
  then show ?case by (cases "ID x = ID s") auto
qed

lemma upto_as_map: "map (\<lambda>j. int j + 1) [0..<n] = [1..int n]"
proof (induction n)
  case 0
  then show ?case by simp
next
  case (Suc n)
  have "[1..int (Suc n)] = [1..int n] @ [int n + 1]"
    using upto_rec2 [of 1 "int n + 1"] by (simp add: add.commute)
  with Suc show ?case by simp
qed

lemma int32_positions:
  assumes "n < 2147483648"
  shows "map (\<lambda>j. int32 (int j + 1)) [0..<n] = [1..int n]"
proof -
  have "map (\<lambda>j. int32 (int j + 1)) [0..<n] = map (\<lambda>j. int j + 1) [0..<n]"
    using assms by (intro map_cong refl int32_id) auto
  then show ?thesis by (simp add: upto_as_map)
qed

lemma sort_key_unique:
  assumes "mset xs = mset ys" and "sorted (map f ys)" and "distinct (map f ys)"
  shows "sort_key f xs = ys"
proof -
  have m: "mset (map f (sort_key f xs)) = mset (map f ys)"
    using assms(1) by simp
  have "distinct (map f (sort_key f xs))"
    using m assms(3) by (metis mset_eq_imp_distinct_iff)
  moreover have "set (map f (sort_key f xs)) = set (map f ys)"
    using m by (metis set_mset_mset)
  ultimately have "map f (sort_key f xs) = map f ys"
    using assms(2,3) by (intro sorted_distinct_set_unique) simp_all
  moreover have "set xs = set ys" using assms(1) by (metis set_mset_mset)
  moreover have "inj_on f (set ys)" using assms(3) by (simp add: distinct_map)
  ultimately show ?thesis
    by (metis inj_on_map_eq_map set_sort sup.idem)
qed

lemma distinct_ID_remaining:
  "distinct (map ID rows) \<Longrightarrow> distinct (map ID (remainingStates pid rows))"
proof -
  assume d: "distinct (map ID rows)"
  have "mset (map ID (remainingStates pid rows)) = mset (map ID (filter (live_in pid) rows))"
    by (simp add: remainingStates_def)
  moreover have "distinct (map ID (filter (live_in pid) rows))"
    using d by (rule distinct_map_filter)
  ultimately show ?thesis by (metis mset_eq_imp_distinct_iff)
qed

lemma set_remaining: "set (remainingStates pid rows) = {s \<in> set rows. live_in pid s}"
  by (simp add: remainingStates_def)

lemma resequence_rows:
  assumes "distinct (map ID rows)"
  shows "resequence pid rows =
           (map (renum 0 (remainingStates pid rows)) rows, map ID (remainingStates pid rows))"
proof -
  have "set (map ID (remainingStates pid rows)) \<subseteq> set (map ID rows)"
    by (auto simp: set_remaining)
  then show ?thesis
    unfolding resequence_def
    using reset_sequences_map [OF distinct_ID_remaining [OF assms] assms, of pid 0 "[]"]
    by simp
qed

lemma same_ID_same_row:
  "distinct (map ID rows) \<Longrightarrow> s \<in> set rows \<Longrightarrow> x \<in> set rows \<Longrightarrow> ID s = ID x \<Longrightarrow> s = x"
  by (meson distinct_map inj_onD)

lemma renum_remaining_frame:
  assumes "distinct (map ID rows)" and "x \<in> set rows"
  shows "\<exists>v. renum i (remainingStates pid rows) x = x\<lparr>Sequence := v\<rparr>"
proof (rule renum_frame)
  show "\<forall>s\<in>set (remainingStates pid rows). ID s = ID x \<longrightarrow> s = x"
    using assms by (auto simp: set_remaining dest: same_ID_same_row)
qed

lemma live_rows_after:
  assumes "distinct (map ID rows)"
  shows "filter (live_in pid) (map (renum i (remainingStates pid rows)) rows) =
         map (renum i (remainingStates pid rows)) (filter (live_in pid) rows)"
proof -
  have "live_in pid (renum i (remainingStates pid rows) x) = live_in pid x" if "x \<in> set rows" for x
  proof -
    from renum_remaining_frame [OF assms that] obtain v
      where "renum i (remainingStates pid rows) x = x\<lparr>Sequence := v\<rparr>" by blast
    then show ?thesis by (simp add: live_in_def)
  qed
  then show ?thesis
    by (simp add: filter_map comp_def cong: filter_cong)
qed

lemma Sequence_renum_remaining:
  assumes "distinct (map ID rows)" and "length rows < 2147483648"
  shows "map Sequence (map (renum 0 (remainingStates pid rows)) (remainingStates pid rows)) =
         [1..int (length (remainingStates pid rows))]"
proof -
  let ?rem = "remainingStates pid rows"
  have "length ?rem \<le> length rows" by (simp add: remainingStates_def)
  with assms(2) have n: "length ?rem < 2147483648" by simp
  have "map Sequence (map (renum 0 ?rem) ?rem) = map (\<lambda>j. int32 (int j + 1)) [0..<length ?rem]"
    by (simp add: map_renum_self [OF distinct_ID_remaining [OF assms(1)]] comp_def)
  with int32_positions [OF n] show ?thesis by simp
qed

lemma remaining_after:
  assumes "distinct (map ID rows)" and "length rows < 2147483648"
  shows "remainingStates pid (map (renum 0 (remainingStates pid rows)) rows) =
         map (renum 0 (remainingStates pid rows)) (remainingStates pid rows)"
proof -
  let ?rem = "remainingStates pid rows"
  let ?g = "renum 0 ?rem"
  have "mset (map ?g (filter (live_in pid) rows)) = mset (map ?g ?rem)"
    by (simp add: remainingStates_def)
  moreover have "sorted (map Sequence (map ?g ?rem))" "distinct (map Sequence (map ?g ?rem))"
    by (simp_all only: Sequence_renum_remaining [OF assms] sorted_upto distinct_upto)
  ultimately have "sort_key Sequence (map ?g (filter (live_in pid) rows)) = map ?g ?rem"
    by (rule sort_key_unique)
  then show ?thesis
    by (simp add: remainingStates_def [of pid "map ?g rows"] live_rows_after [OF assms(1)])
qed

lemma dense_after_resequence:
  assumes "distinct (map ID rows)" and "length rows < 2147483648"
  shows "mset (map Sequence (filter (live_in pid) (fst (resequence pid rows)))) =
         mset [1..int (length (filter (live_in pid) (fst (resequence pid rows))))]"
proof -
  let ?rem = "remainingStates pid rows"
  let ?g = "renum 0 ?rem"
  have "mset (map Sequence (map ?g (filter (live_in pid) rows))) = mset (map Sequence (map ?g ?rem))"
    by (simp add: remainingStates_def)
  moreover have "length (filter (live_in pid) rows) = length ?rem"
    by (simp add: remainingStates_def)
  ultimately show ?thesis
    by (simp only: resequence_rows [OF assms(1)] fst_conv live_rows_after [OF assms(1)]
          Sequence_renum_remaining [OF assms] length_map)
qed

subsection \<open>The reorder loop\<close>

lemma find_by_key:
  assumes "distinct (map ID rows)"
    and "find (\<lambda>s. ID s = k \<and> Q s) rows = Some ps"
  shows "ps \<in> set rows" "ID ps = k" "Q ps" "\<And>x. x \<in> set rows \<Longrightarrow> ID x = k \<Longrightarrow> x = ps"
proof -
  from assms(2) obtain n where n: "n < length rows" "rows ! n = ps" "ID ps = k \<and> Q ps"
    by (auto simp: find_Some_iff)
  then show "ps \<in> set rows" "ID ps = k" "Q ps" by auto
  then show "\<And>x. x \<in> set rows \<Longrightarrow> ID x = k \<Longrightarrow> x = ps"
    using assms(1) by (auto dest: same_ID_same_row)
qed

lemma save_found:
  assumes "distinct (map ID rows)"
    and "find (\<lambda>s. ID s = k \<and> Q s) rows = Some ps"
    and "ID (f ps) = k"
  shows "save_state (f ps) rows = map (\<lambda>x. if ID x = k then f x else x) rows"
proof -
  note fk = find_by_key [OF assms(1,2)]
  have "save_state (f ps) rows = map (\<lambda>x. if ID x = ID (f ps) then f ps else x) rows"
    using fk(1,2) assms(1,3) by (intro save_state_map) force+
  also have "\<dots> = map (\<lambda>x. if ID x = k then f x else x) rows"
    using fk(4) assms(3) by (intro map_cong) auto
  finally show ?thesis .
qed

lemma map_ID_frame: "(\<And>x. ID (h x) = ID x) \<Longrightarrow> map ID (map h rows) = map ID rows"
  by simp

lemma update_sequences_Some:
  assumes "distinct (map ID rows)"
    and "\<forall>k\<in>set ids. \<exists>s\<in>set rows. ID s = k \<and> ProjectID s = pid"
  shows "update_sequences i ids pid rows = Some (map (reorder i ids pid) rows)"
  using assms
proof (induction ids arbitrary: i rows)
  case Nil
  then show ?case by simp
next
  case (Cons k ks)
  let ?f = "\<lambda>x. x\<lparr>Sequence := int32 (int i + 1)\<rparr>"
  let ?h = "\<lambda>x. if ID x = k \<and> ProjectID x = pid then ?f x else x"
  from Cons.prems(2) obtain s where s: "s \<in> set rows" "ID s = k \<and> ProjectID s = pid" by auto
  then have "find (\<lambda>s. ID s = k \<and> ProjectID s = pid) rows \<noteq> None"
    unfolding find_None_iff by blast
  then obtain ps where ps: "find (\<lambda>s. ID s = k \<and> ProjectID s = pid) rows = Some ps"
    by blast
  note fk = find_by_key [OF Cons.prems(1) ps]
  have "ID (?f ps) = k" using fk(2) by simp
  then have "save_state (?f ps) rows = map (\<lambda>x. if ID x = k then ?f x else x) rows"
    by (rule save_found [OF Cons.prems(1) ps])
  also have "\<dots> = map ?h rows"
  proof (rule map_cong [OF refl])
    fix x assume "x \<in> set rows"
    then show "(if ID x = k then ?f x else x) = ?h x"
      using fk(3) fk(4) [of x] by (cases "ID x = k") simp_all
  qed
  finally have sv: "save_state (?f ps) rows = map ?h rows" .
  have ids: "map ID (map ?h rows) = map ID rows" by (rule map_ID_frame) simp
  have "update_sequences (Suc i) ks pid (map ?h rows) = Some (map (reorder (Suc i) ks pid) (map ?h rows))"
  proof (rule Cons.IH)
    show "distinct (map ID (map ?h rows))" using Cons.prems(1) by (simp only: ids)
    show "\<forall>k\<in>set ks. \<exists>s\<in>set (map ?h rows). ID s = k \<and> ProjectID s = pid"
    proof
      fix k' assume "k' \<in> set ks"
      with Cons.prems(2) obtain t where t: "t \<in> set rows" "ID t = k'" "ProjectID t = pid" by auto
      have "?h t \<in> set (map ?h rows)" using t(1) by (rule imageI [of t "set rows" ?h, folded set_map])
      moreover have "ID (?h t) = k'" "ProjectID (?h t) = pid" using t(2,3) by simp_all
      ultimately show "\<exists>s\<in>set (map ?h rows). ID s = k' \<and> ProjectID s = pid" by blast
    qed
  qed
  then show ?case by (simp add: ps sv comp_def)
qed

lemma update_sequences_None:
  assumes "distinct (map ID rows)"
    and "\<exists>k\<in>set ids. \<not> (\<exists>s\<in>set rows. ID s = k \<and> ProjectID s = pid)"
  shows "update_sequences i ids pid rows = None"
  using assms
proof (induction ids arbitrary: i rows)
  case Nil
  then show ?case by simp
next
  case (Cons k ks)
  show ?case
  proof (cases "find (\<lambda>s. ID s = k \<and> ProjectID s = pid) rows")
    case None
    then show ?thesis by simp
  next
    case (Some ps)
    let ?f = "\<lambda>x. x\<lparr>Sequence := int32 (int i + 1)\<rparr>"
    let ?h = "\<lambda>x. if ID x = k then ?f x else x"
    note fk = find_by_key [OF Cons.prems(1) Some]
    have "ID (?f ps) = k" using fk(2) by simp
    then have sv: "save_state (?f ps) rows = map ?h rows"
      by (rule save_found [OF Cons.prems(1) Some])
    have ids: "map ID (map ?h rows) = map ID rows" by (rule map_ID_frame) simp
    from Cons.prems(2) obtain k'
      where k': "k' \<in> set (k # ks)" "\<not> (\<exists>s\<in>set rows. ID s = k' \<and> ProjectID s = pid)"
      by blast
    have "k' \<noteq> k" using k'(2) fk(1,2,3) by blast
    with k'(1) have "k' \<in> set ks" by simp
    moreover have "\<not> (\<exists>s\<in>set (map ?h rows). ID s = k' \<and> ProjectID s = pid)"
    proof
      assume "\<exists>s\<in>set (map ?h rows). ID s = k' \<and> ProjectID s = pid"
      then obtain t where t: "t \<in> set rows" "ID (?h t) = k'" "ProjectID (?h t) = pid"
        by (auto simp only: set_map)
      have "ID (?h t) = ID t" "ProjectID (?h t) = ProjectID t" by simp_all
      with t k'(2) show False by metis
    qed
    moreover have "distinct (map ID (map ?h rows))" using Cons.prems(1) by (simp only: ids)
    ultimately have "update_sequences (Suc i) ks pid (map ?h rows) = None"
      by (intro Cons.IH) blast+
    then show ?thesis by (simp add: Some sv)
  qed
qed

lemma reorder_keys: "ID (reorder i ids pid x) = ID x \<and> ProjectID (reorder i ids pid x) = ProjectID x
   \<and> DeletedAt (reorder i ids pid x) = DeletedAt x"
  by (induction ids arbitrary: i x) simp_all

lemma last_position_None: "k \<notin> set as \<Longrightarrow> last_position as k = None"
  by (induction as) auto

lemma last_position_distinct:
  "distinct ids \<Longrightarrow> j < length ids \<Longrightarrow> last_position ids (ids ! j) = Some j"
proof (induction ids arbitrary: j)
  case Nil
  then show ?case by simp
next
  case (Cons a as)
  show ?case
  proof (cases j)
    case 0
    with Cons.prems show ?thesis by (simp add: last_position_None)
  next
    case (Suc j')
    with Cons show ?thesis by simp
  qed
qed


lemma reorder_last:
  "reorder i ids pid x =
     (case (if ProjectID x = pid then last_position ids (ID x) else None) of
        None \<Rightarrow> x
      | Some j \<Rightarrow> x\<lparr>Sequence := int32 (int (i + j) + 1)\<rparr>)"
proof (induction ids arbitrary: i x)
  case Nil
  then show ?case by simp
next
  case (Cons k ks)
  let ?x1 = "if ID x = k \<and> ProjectID x = pid then x\<lparr>Sequence := int32 (int i + 1)\<rparr> else x"
  have keys: "ID ?x1 = ID x" "ProjectID ?x1 = ProjectID x" by simp_all
  have upd: "?x1\<lparr>Sequence := v\<rparr> = x\<lparr>Sequence := v\<rparr>" for v by simp
  have step: "reorder i (k # ks) pid x =
      (case (if ProjectID x = pid then last_position ks (ID x) else None) of
         None \<Rightarrow> ?x1
       | Some j \<Rightarrow> x\<lparr>Sequence := int32 (int (Suc i + j) + 1)\<rparr>)"
    by (simp only: reorder.simps Cons.IH [of "Suc i" ?x1] keys upd)
  show ?case
  proof (cases "ProjectID x = pid")
    case False
    then show ?thesis unfolding step by simp
  next
    case True
    show ?thesis
    proof (cases "last_position ks (ID x)")
      case None
      with True show ?thesis unfolding step by simp
    next
      case (Some j)
      with True show ?thesis unfolding step by simp
    qed
  qed
qed

subsection \<open>Deleting a state\<close>

lemmas fixture_defs = state_row_def board_def issue_row_def
lemmas handler_defs = DeleteProjectStateByID_def role_ok_def issueCount_def resequence_def
  remainingStates_def live_in_def int32_def UpdateProjectStatesSequence_def CreateProjectState_def
  existingCount_def

lemma Delete_NoContent:
  assumes "DeleteProjectStateByID role pid sid now d = (StatusNoContent, d')"
  obtains ps where
    "find (\<lambda>s. ID s = sid \<and> ProjectID s = pid \<and> DeletedAt s = None) (project_states d) = Some ps"
    "d' = d\<lparr>project_states :=
             fst (resequence pid (save_state (ps\<lparr>DeletedAt := Some now\<rparr>) (project_states d)))\<rparr>"
  using assms
  by (auto simp: DeleteProjectStateByID_def Let_def split: if_splits option.splits)

lemma find_in_map:
  assumes "distinct (map ID rows)" and "x \<in> set rows" and "\<And>y. ID (g y) = ID y"
  shows "find (\<lambda>s. ID s = ID x) (map g rows) = Some (g x)"
  using assms(1,2)
proof (induction rows)
  case Nil
  then show ?case by simp
next
  case (Cons y ys)
  show ?case
  proof (cases "ID y = ID x")
    case True
    with Cons.prems have "y = x" by (metis list.set_intros(1) same_ID_same_row)
    then show ?thesis by (simp add: assms(3))
  next
    case False
    with Cons show ?thesis by (auto simp: assms(3))
  qed
qed

lemma soft_delete_rows:
  fixes now :: time
  assumes "distinct (map ID rows)"
    and "find (\<lambda>s. ID s = sid \<and> ProjectID s = pid \<and> DeletedAt s = None) rows = Some ps"
  defines "rows1 \<equiv> save_state (ps\<lparr>DeletedAt := Some now\<rparr>) rows"
  shows "map ID rows1 = map ID rows"
    and "filter (live_in pid) rows1 = filter (\<lambda>s. live_in pid s \<and> ID s \<noteq> sid) rows"
    and "find (\<lambda>s. ID s = sid) rows1 = Some (ps\<lparr>DeletedAt := Some now\<rparr>)"
proof -
  let ?f = "\<lambda>x. x\<lparr>DeletedAt := Some now\<rparr>"
  let ?h = "\<lambda>x. if ID x = sid then ?f x else x"
  note fk = find_by_key [OF assms(1,2)]
  have "ID (?f ps) = sid" using fk(2) by simp
  then have sv: "rows1 = map ?h rows"
    unfolding rows1_def by (rule save_found [OF assms(1,2)])
  show "map ID rows1 = map ID rows" unfolding sv by (rule map_ID_frame) simp
  have "live_in pid (?h x) = (live_in pid x \<and> ID x \<noteq> sid)" for x
    by (simp add: live_in_def)
  then have "filter (live_in pid) (map ?h rows) =
             map ?h (filter (\<lambda>s. live_in pid s \<and> ID s \<noteq> sid) rows)"
    by (simp add: filter_map comp_def)
  also have "\<dots> = filter (\<lambda>s. live_in pid s \<and> ID s \<noteq> sid) rows"
    by (rule map_idI) simp
  finally show "filter (live_in pid) rows1 = filter (\<lambda>s. live_in pid s \<and> ID s \<noteq> sid) rows"
    unfolding sv .
  have "find (\<lambda>s. ID s = ID ps) (map ?h rows) = Some (?h ps)"
    using assms(1) fk(1) by (rule find_in_map) simp
  then show "find (\<lambda>s. ID s = sid) rows1 = Some (?f ps)"
    unfolding sv using fk(2) by simp
qed




lemmas board_defs = board3_def board4_def board4_without_B_def board4_reversed_def board5_def
  board_with_removed_def board4_soft_deleted_B_def

lemma saved_reset_sequences:
  "snd (reset_sequences i rem (rows, saved)) = saved @ map ID rem"
  by (induction rem arbitrary: i rows saved) simp_all

lemma renum_fixed:
  assumes "distinct (map ID rem)"
    and "\<forall>j<length rem. Sequence (rem ! j) = int32 (int (i + j) + 1)"
    and "\<forall>s\<in>set rem. ID s = ID x \<longrightarrow> s = x"
  shows "renum i rem x = x"
proof (cases "ID x \<in> set (map ID rem)")
  case False
  then show ?thesis by (rule renum_other)
next
  case True
  then obtain s where "s \<in> set rem" "ID s = ID x" by auto
  with assms(3) have "x \<in> set rem" by auto
  then obtain j where j: "j < length rem" "rem ! j = x" by (auto simp: in_set_conv_nth)
  have "renum i rem (rem ! j) = (rem ! j)\<lparr>Sequence := int32 (int (i + j) + 1)\<rparr>"
    using assms(1) j(1) by (rule renum_self)
  also have "\<dots> = (rem ! j)\<lparr>Sequence := Sequence (rem ! j)\<rparr>"
    using assms(2) j(1) by simp
  finally show ?thesis using j(2) by simp
qed

subsection \<open>Reordering and creating states\<close>

lemma reorder_reordered: "reorder 0 ids pid = reordered ids pid"
  by (rule ext) (simp add: reorder_last reordered_def split: option.splits)

lemma Update_applied:
  assumes "role_ok role" and "distinct (map ID (project_states d))"
    and "\<forall>k\<in>set ids. \<exists>s\<in>set (project_states d). ID s = k \<and> ProjectID s = pid"
  shows "UpdateProjectStatesSequence role pid ids d =
           (StatusOK, d\<lparr>project_states := map (reordered ids pid) (project_states d)\<rparr>)"
  using assms(1) update_sequences_Some [OF assms(2,3), of 0]
  by (simp add: UpdateProjectStatesSequence_def reorder_reordered)

lemma Update_refused:
  assumes "role_ok role" and "distinct (map ID (project_states d))"
    and "\<exists>k\<in>set ids. \<not> (\<exists>s\<in>set (project_states d). ID s = k \<and> ProjectID s = pid)"
  shows "UpdateProjectStatesSequence role pid ids d = (StatusNotFound, d)"
  using assms(1) update_sequences_None [OF assms(2,3), of 0]
  by (simp add: UpdateProjectStatesSequence_def)

lemmas update_defs = UpdateProjectStatesSequence_def role_ok_def int32_def

lemma dense_after_delete:
  assumes "distinct (map ID (project_states d))" and "length (project_states d) < 2147483648"
    and "DeleteProjectStateByID role pid sid now d = (StatusNoContent, d')"
  shows "dense pid d'"
proof -
  from assms(3) obtain ps where
    ps: "find (\<lambda>s. ID s = sid \<and> ProjectID s = pid \<and> DeletedAt s = None) (project_states d) = Some ps"
    and d': "d' = d\<lparr>project_states :=
                  fst (resequence pid (save_state (ps\<lparr>DeletedAt := Some now\<rparr>) (project_states d)))\<rparr>"
    by (rule Delete_NoContent)
  let ?rows1 = "save_state (ps\<lparr>DeletedAt := Some now\<rparr>) (project_states d)"
  note sd = soft_delete_rows [OF assms(1) ps, of now]
  have dist1: "distinct (map ID ?rows1)" using assms(1) by (simp only: sd(1))
  have "length (map ID ?rows1) = length (map ID (project_states d))" by (simp only: sd(1))
  then have len1: "length ?rows1 < 2147483648" using assms(2) by simp
  show ?thesis
    using dense_after_resequence [OF dist1 len1, of pid]
    by (simp add: dense_def live_states_def d')
qed

lemma live_in_reordered: "live_in pid (reordered ids q x) = live_in pid x"
  by (simp add: reordered_def live_in_def split: option.splits)

lemma dense_after_update:
  assumes "distinct (map ID (project_states d))" and "length (project_states d) < 2147483648"
    and "UpdateProjectStatesSequence role pid ids d = (StatusOK, d')"
    and "distinct ids" and "set ids = set (map ID (live_states pid d))"
  shows "dense pid d'"
proof -
  let ?rows = "project_states d"
  let ?L = "live_states pid d"
  let ?g = "reordered ids pid"
  let ?p = "\<lambda>k. int32 (int (the (last_position ids k)) + 1)"
  from assms(3) have role: "role_ok role"
    by (auto simp: UpdateProjectStatesSequence_def split: if_splits)
  have found: "\<forall>k\<in>set ids. \<exists>s\<in>set ?rows. ID s = k \<and> ProjectID s = pid"
  proof
    fix k assume "k \<in> set ids"
    with assms(5) obtain s where "s \<in> set ?L" "ID s = k" by auto
    then show "\<exists>s\<in>set ?rows. ID s = k \<and> ProjectID s = pid"
      by (auto simp: live_states_def live_in_def)
  qed
  from Update_applied [OF role assms(1) found] assms(3)
  have d': "d' = d\<lparr>project_states := map ?g ?rows\<rparr>" by simp
  have live': "live_states pid d' = map ?g ?L"
    by (simp add: d' live_states_def filter_map comp_def live_in_reordered)
  have distL: "distinct (map ID ?L)"
    unfolding live_states_def using assms(1) by (rule distinct_map_filter)
  have perm: "mset (map ID ?L) = mset ids"
    using distL assms(4,5) by (metis set_eq_iff_mset_eq_distinct)
  then have "size (mset (map ID ?L)) = size (mset ids)" by simp
  then have len: "length ?L = length ids" by simp
  have "length ?L \<le> length ?rows" by (simp add: live_states_def)
  with assms(2) len have n: "length ids < 2147483648" by simp
  have seq: "Sequence (?g x) = ?p (ID x)" if "x \<in> set ?L" for x
  proof -
    from that have pid: "ProjectID x = pid" by (simp add: live_states_def live_in_def)
    from that assms(5) have "ID x \<in> set ids" by auto
    then obtain j where "j < length ids" "ids ! j = ID x" by (auto simp: in_set_conv_nth)
    with assms(4) have "last_position ids (ID x) = Some j" by (metis last_position_distinct)
    with pid show ?thesis by (simp add: reordered_def)
  qed
  have "map Sequence (map ?g ?L) = map ?p (map ID ?L)"
    by (simp add: seq)
  then have "mset (map Sequence (map ?g ?L)) = image_mset ?p (mset (map ID ?L))"
    by (simp only: mset_map)
  also have "\<dots> = mset (map ?p ids)" unfolding perm by simp
  also have "map ?p ids = map (\<lambda>j. int32 (int j + 1)) [0..<length ids]"
    by (rule nth_equalityI) (simp_all add: last_position_distinct [OF assms(4)])
  also have "\<dots> = [1..int (length ids)]" by (rule int32_positions [OF n])
  finally show ?thesis by (simp add: dense_def live' len)
qed

lemma Create_Created:
  assumes "CreateProjectState role pid req_name email newID d = (StatusCreated, d')"
  shows "d' = d\<lparr>project_states := project_states d @
            [\<lparr>ID = newID, Name = req_name, ProjectID = pid,
              Sequence = int32 (existingCount pid (project_states d) + 1),
              CreatedBy = email, DeletedAt = None\<rparr>]\<rparr>"
  using assms by (auto simp: CreateProjectState_def Let_def split: if_splits)

lemma upto_snoc: "[1..1 + int n] = [1..int n] @ [1 + int n]"
  using upto_rec2 [of 1 "1 + int n"] by simp

lemma dense_after_create:
  assumes "length (project_states d) < 2147483647"
    and "CreateProjectState role pid req_name email newID d = (StatusCreated, d')"
    and "dense pid d"
    and "\<forall>s\<in>set (project_states d). ProjectID s = pid \<longrightarrow> DeletedAt s = None"
  shows "dense pid d'"
proof -
  let ?rows = "project_states d"
  let ?L = "live_states pid d"
  have same: "filter (\<lambda>s. ProjectID s = pid) ?rows = filter (live_in pid) ?rows"
    using assms(4) by (intro filter_cong refl) (auto simp: live_in_def)
  then have count: "existingCount pid ?rows = int (length ?L)"
    by (simp add: existingCount_def live_states_def)
  have "length ?L \<le> length ?rows" by (simp add: live_states_def)
  with assms(1) have "int32 (int (length ?L) + 1) = int (length ?L) + 1"
    by (intro int32_id) simp_all
  with Create_Created [OF assms(2)] count
  have live': "live_states pid d' = ?L @ [\<lparr>ID = newID, Name = req_name, ProjectID = pid,
              Sequence = int (length ?L) + 1, CreatedBy = email, DeletedAt = None\<rparr>]"
    by (simp add: live_states_def live_in_def)
  have "mset (map Sequence (live_states pid d')) =
          add_mset (1 + int (length ?L)) (mset (map Sequence ?L))"
    by (simp add: live')
  also have "\<dots> = add_mset (1 + int (length ?L)) (mset [1..int (length ?L)])"
    using assms(3) by (simp only: dense_def)
  also have "\<dots> = mset [1..1 + int (length ?L)]"
    by (simp only: upto_snoc mset_append mset.simps) simp
  also have "1 + int (length ?L) = int (length (live_states pid d'))"
    by (simp add: live')
  finally show ?thesis by (simp only: dense_def)
qed

subsection \<open>Issue numbers\<close>

lemma fold_max_Max:
  "(case xs of [] \<Rightarrow> (0::int) | x # ys \<Rightarrow> fold max ys x) = (if xs = [] then 0 else Max (set xs))"
proof (cases xs)
  case Nil
  then show ?thesis by simp
next
  case (Cons x ys)
  then show ?thesis using Max.set_eq_fold [of x ys] by simp
qed

lemma MaxSeq_Max: "MaxSeq pid (issues d) = spec_max_sequence pid d"
  unfolding MaxSeq_def spec_max_sequence_def live_issues_def
  by (simp only: fold_max_Max map_is_Nil_conv)

lemma spec_max_sequence_ge:
  "i \<in> set (live_issues pid d) \<Longrightarrow> SequenceID i \<le> spec_max_sequence pid d"
  by (auto simp: spec_max_sequence_def)

lemma spec_max_sequence_bounds:
  assumes "\<forall>i\<in>set (live_issues pid d). lo \<le> SequenceID i \<and> SequenceID i \<le> hi"
    and "lo \<le> 0" and "0 \<le> hi"
  shows "lo \<le> spec_max_sequence pid d \<and> spec_max_sequence pid d \<le> hi"
proof (cases "live_issues pid d = []")
  case True
  with assms(2,3) show ?thesis by (simp add: spec_max_sequence_def)
next
  case False
  then have ne: "set (map SequenceID (live_issues pid d)) \<noteq> {}" by simp
  have "Max (set (map SequenceID (live_issues pid d))) \<in> set (map SequenceID (live_issues pid d))"
    using ne by (intro Max_in) simp_all
  then obtain i where "i \<in> set (live_issues pid d)"
    "SequenceID i = Max (set (map SequenceID (live_issues pid d)))" by auto
  with assms(1) have "lo \<le> Max (set (map SequenceID (live_issues pid d)))
      \<and> Max (set (map SequenceID (live_issues pid d))) \<le> hi" by metis
  with False show ?thesis by (simp only: spec_max_sequence_def if_False)
qed

lemma CreateIssue_Created:
  assumes "CreateIssue authorized pid req newID d = (StatusCreated, d')"
  obtains stateID parent where
    "d' = d\<lparr>issues := issues d @
            [\<lparr>IssueID = newID, Title = ReqTitle req, IssueProjectID = pid, StateID = stateID,
              ParentID = parent, SequenceID = int32 (MaxSeq pid (issues d) + 1),
              IssueDeletedAt = None\<rparr>]\<rparr>"
  using assms
  by (auto simp: CreateIssue_def Let_def split: if_splits option.splits)

lemma CreateIssue_appends:
  assumes "CreateIssue authorized pid req newID d = (StatusCreated, d')"
    and "\<forall>i\<in>set (live_issues pid d). - 2147483648 \<le> SequenceID i \<and> SequenceID i < 2147483647"
  shows "\<exists>issue. issues d' = issues d @ [issue] \<and> IssueID issue = newID
           \<and> IssueProjectID issue = pid \<and> IssueDeletedAt issue = None
           \<and> SequenceID issue = spec_max_sequence pid d + 1"
proof -
  from assms(1) obtain stateID parent where
    d': "d' = d\<lparr>issues := issues d @
            [\<lparr>IssueID = newID, Title = ReqTitle req, IssueProjectID = pid, StateID = stateID,
              ParentID = parent, SequenceID = int32 (MaxSeq pid (issues d) + 1),
              IssueDeletedAt = None\<rparr>]\<rparr>"
    by (rule CreateIssue_Created)
  from assms(2) have "\<forall>i\<in>set (live_issues pid d). - 2147483648 \<le> SequenceID i \<and> SequenceID i \<le> 2147483646"
    by auto
  then have "- 2147483648 \<le> spec_max_sequence pid d \<and> spec_max_sequence pid d \<le> 2147483646"
    by (rule spec_max_sequence_bounds) simp_all
  then have "int32 (spec_max_sequence pid d + 1) = spec_max_sequence pid d + 1"
    by (intro int32_id) simp_all
  then show ?thesis by (simp add: d' MaxSeq_Max)
qed

lemmas issue_defs = CreateIssue_def DeleteIssue_def MaxSeq_def live_issue_def parentIssue_def
  int32_def issue_request_def board3_with_issues_def

lemma numbered_mono: "numbered q B d \<Longrightarrow> B \<le> B' \<Longrightarrow> numbered q B' d"
  by (fastforce simp: numbered_def)

lemma CreateIssue_snd:
  "snd (CreateIssue authorized pid req newID d) = d
   \<or> fst (CreateIssue authorized pid req newID d) = StatusCreated"
  by (simp add: CreateIssue_def Let_def split: option.splits)

lemma numbered_CreateIssue:
  assumes "numbered q B d" and "0 \<le> B" and "B < 2147483647"
  shows "numbered q (B + 1) (snd (CreateIssue authorized pid req newID d))"
proof (cases "snd (CreateIssue authorized pid req newID d) = d")
  case True
  with numbered_mono [OF assms(1), of "B + 1"] show ?thesis by simp
next
  case False
  with CreateIssue_snd [of authorized pid req newID d]
  have "fst (CreateIssue authorized pid req newID d) = StatusCreated" by blast
  then have eq: "CreateIssue authorized pid req newID d =
                   (StatusCreated, snd (CreateIssue authorized pid req newID d))"
    by (metis prod.collapse)
  let ?d' = "snd (CreateIssue authorized pid req newID d)"
  show ?thesis
  proof (cases "pid = q")
    case False
    from eq obtain stateID parent where
      "?d' = d\<lparr>issues := issues d @
            [\<lparr>IssueID = newID, Title = ReqTitle req, IssueProjectID = pid, StateID = stateID,
              ParentID = parent, SequenceID = int32 (MaxSeq pid (issues d) + 1),
              IssueDeletedAt = None\<rparr>]\<rparr>"
      by (rule CreateIssue_Created)
    with False have "live_issues q ?d' = live_issues q d"
      by (simp add: live_issues_def live_issue_def)
    with numbered_mono [OF assms(1), of "B + 1"] show ?thesis by (simp add: numbered_def)
  next
    case True
    from assms(1) assms(3) have bnd: "\<forall>i\<in>set (live_issues pid d).
        - 2147483648 \<le> SequenceID i \<and> SequenceID i < 2147483647"
      unfolding True numbered_def by fastforce
    from CreateIssue_appends [OF eq bnd] obtain issue where
      issue: "issues ?d' = issues d @ [issue]" "IssueProjectID issue = pid"
        "IssueDeletedAt issue = None" "SequenceID issue = spec_max_sequence pid d + 1"
      by blast
    have live': "live_issues q ?d' = live_issues q d @ [issue]"
      using issue(1,2,3) True by (simp add: live_issues_def live_issue_def)
    from assms(1) have "\<forall>i\<in>set (live_issues pid d). - 2147483648 \<le> SequenceID i \<and> SequenceID i \<le> B"
      unfolding True numbered_def by blast
    then have mx: "- 2147483648 \<le> spec_max_sequence pid d \<and> spec_max_sequence pid d \<le> B"
      using assms(2) by (intro spec_max_sequence_bounds) simp_all
    have fresh: "SequenceID issue \<notin> set (map SequenceID (live_issues q d))"
    proof
      assume "SequenceID issue \<in> set (map SequenceID (live_issues q d))"
      then obtain i where "i \<in> set (live_issues pid d)" "SequenceID i = SequenceID issue"
        unfolding True by auto
      with spec_max_sequence_ge [of i pid d] issue(4) show False by simp
    qed
    from assms(1) fresh mx issue(4) show ?thesis
      unfolding numbered_def live' by auto
  qed
qed

lemma numbered_DeleteIssue:
  assumes "numbered q B d"
  shows "numbered q B (snd (DeleteIssue authorized pid iid now d))"
proof -
  have "snd (DeleteIssue authorized pid iid now d) = d
      \<or> (\<exists>k. snd (DeleteIssue authorized pid iid now d) =
            d\<lparr>issues := map (\<lambda>i. if IssueID i = k then i\<lparr>IssueDeletedAt := Some now\<rparr> else i) (issues d)\<rparr>)"
    by (auto simp: DeleteIssue_def split: option.splits)
  then show ?thesis
  proof
    assume "snd (DeleteIssue authorized pid iid now d) = d"
    with assms show ?thesis by simp
  next
    assume "\<exists>k. snd (DeleteIssue authorized pid iid now d) =
            d\<lparr>issues := map (\<lambda>i. if IssueID i = k then i\<lparr>IssueDeletedAt := Some now\<rparr> else i) (issues d)\<rparr>"
    then obtain k where k: "snd (DeleteIssue authorized pid iid now d) =
            d\<lparr>issues := map (\<lambda>i. if IssueID i = k then i\<lparr>IssueDeletedAt := Some now\<rparr> else i) (issues d)\<rparr>"
      by blast
    let ?h = "\<lambda>i. if IssueID i = k then i\<lparr>IssueDeletedAt := Some now\<rparr> else i"
    have "live_issue q (?h i) = (live_issue q i \<and> IssueID i \<noteq> k)" for i
      by (simp add: live_issue_def)
    then have "filter (live_issue q) (map ?h (issues d)) =
               map ?h (filter (\<lambda>i. live_issue q i \<and> IssueID i \<noteq> k) (issues d))"
      by (simp add: filter_map comp_def)
    also have "\<dots> = filter (\<lambda>i. live_issue q i \<and> IssueID i \<noteq> k) (issues d)"
      by (rule map_idI) simp
    also have "\<dots> = filter (\<lambda>i. IssueID i \<noteq> k) (live_issues q d)"
      by (simp add: live_issues_def)
    finally have live': "live_issues q (snd (DeleteIssue authorized pid iid now d)) =
        filter (\<lambda>i. IssueID i \<noteq> k) (live_issues q d)"
      by (simp add: k live_issues_def)
    from assms show ?thesis
      unfolding numbered_def live' by (auto intro: distinct_map_filter)
  qed
qed

lemma numbered_apply_issue_ops:
  assumes "numbered q B d" and "0 \<le> B" and "B + int (length ops) < 2147483648"
  shows "numbered q (B + int (length ops)) (apply_issue_ops ops d)"
  using assms
proof (induction ops arbitrary: B d)
  case Nil
  then show ?case by simp
next
  case (Cons op ops)
  have step: "numbered q (B + 1) (apply_issue_op op d)"
  proof (cases op)
    case (OpCreateIssue authorized pid req newID)
    with Cons.prems numbered_CreateIssue [of q B d authorized pid req newID] show ?thesis by simp
  next
    case (OpDeleteIssue authorized pid iid now)
    with numbered_mono [OF numbered_DeleteIssue [OF Cons.prems(1), of authorized pid iid now], of "B + 1"]
    show ?thesis by simp
  qed
  have "numbered q (B + 1 + int (length ops)) (apply_issue_ops ops (apply_issue_op op d))"
    using step Cons.prems(2,3) by (intro Cons.IH) simp_all
  then show ?case by (simp add: add.assoc add.commute)
qed

section \<open>The properties\<close>

subsection \<open>Compaction after a state is deleted\<close>




text \<open>
  C10. \<open>DeleteProjectStateByID\<close> on a live state of the project that a live issue refers to
  answers with a conflict and leaves every table as it was.
\<close>

theorem DeleteProjectStateByID_conflict:
  assumes "role_ok role"
    and "find (\<lambda>s. ID s = sid \<and> ProjectID s = pid \<and> DeletedAt s = None) (project_states d) = Some ps"
    and "\<exists>i\<in>set (issues d). StateID i = sid \<and> IssueDeletedAt i = None"
  shows "DeleteProjectStateByID role pid sid now d = (StatusConflict, d)"
proof -
  from assms(3) have "filter (\<lambda>i. StateID i = sid \<and> IssueDeletedAt i = None) (issues d) \<noteq> []"
    by (simp add: filter_empty_conv)
  then have "issueCount sid (issues d) > 0" by (simp add: issueCount_def)
  with assms(1,2) show ?thesis by (simp add: DeleteProjectStateByID_def)
qed

theorem DeleteProjectStateByID_conflict_witness:
  "DeleteProjectStateByID (Some ''Owner'') ''P'' ''A'' 7
     ((board [state_row ''A'' 1 None, state_row ''B'' 2 None])\<lparr>issues := [issue_row ''I1'' ''A'' 1 None]\<rparr>)
   = (StatusConflict, (board [state_row ''A'' 1 None, state_row ''B'' 2 None])\<lparr>issues := [issue_row ''I1'' ''A'' 1 None]\<rparr>)"
proof -
  let ?d = "(board [state_row ''A'' 1 None, state_row ''B'' 2 None])\<lparr>issues := [issue_row ''I1'' ''A'' 1 None]\<rparr>"
  have 1: "role_ok (Some ''Owner'')" by (simp add: role_ok_def)
  have 2: "find (\<lambda>s. ID s = ''A'' \<and> ProjectID s = ''P'' \<and> DeletedAt s = None) (project_states ?d)
           = Some (state_row ''A'' 1 None)"
    by (simp add: fixture_defs)
  have 3: "\<exists>i\<in>set (issues ?d). StateID i = ''A'' \<and> IssueDeletedAt i = None"
    by (simp add: fixture_defs)
  show ?thesis by (rule DeleteProjectStateByID_conflict [OF 1 2 3])
qed

subsection \<open>Which rows the compaction writes\<close>

text \<open>
  C8, as the code has it. The compaction saves every remaining live state of the project,
  once each and in the order of the sequences, whether or not the sequence it computes
  differs from the stored one; no other row is saved.
\<close>

theorem resequence_saves_every_remaining:
  "snd (resequence pid rows) = map ID (remainingStates pid rows)"
  by (simp add: resequence_def saved_reset_sequences)

text \<open>
  C8 as stated fails: with \<open>A\<close> at sequence 1 and \<open>B\<close> just soft-deleted, the compaction
  computes 1 for \<open>A\<close>, which is what \<open>A\<close> holds, and saves \<open>A\<close> all the same.
\<close>

theorem resequence_saves_unchanged_row:
  "resequence ''P'' [state_row ''A'' 1 None, state_row ''B'' 2 (Some 7)] =
     ([state_row ''A'' 1 None, state_row ''B'' 2 (Some 7)], [''A''])"
  by (simp add: fixture_defs resequence_def remainingStates_def live_in_def int32_def)

text \<open>
  C9, as the code has it. Running the compaction a second time, with nothing deleted in
  between, changes no row: the table after the second run is the table after the first.
  The second run does save every remaining state again.
\<close>

theorem resequence_twice:
  assumes "distinct (map ID rows)" and "length rows < 2147483648"
  shows "fst (resequence pid (fst (resequence pid rows))) = fst (resequence pid rows)
       \<and> snd (resequence pid (fst (resequence pid rows))) = map ID (remainingStates pid rows)"
proof -
  let ?rem = "remainingStates pid rows"
  let ?rows' = "map (renum 0 ?rem) rows"
  let ?rem' = "remainingStates pid ?rows'"
  have rows': "fst (resequence pid rows) = ?rows'"
    by (simp add: resequence_rows [OF assms(1)])
  have ids: "map ID ?rows' = map ID rows"
    by (rule map_ID_frame) (rule ID_renum)
  have dist': "distinct (map ID ?rows')" using assms(1) by (simp only: ids)
  have rem': "?rem' = map (renum 0 ?rem) ?rem"
    by (rule remaining_after [OF assms])
  have second: "resequence pid ?rows' = (map (renum 0 ?rem') ?rows', map ID ?rem')"
    by (rule resequence_rows [OF dist'])
  have "length ?rem \<le> length rows" by (simp add: remainingStates_def)
  with assms(2) have n: "length ?rem < 2147483648" by simp
  have seqs: "map Sequence ?rem' = map (\<lambda>j. int32 (int j + 1)) [0..<length ?rem']"
    using Sequence_renum_remaining [OF assms, of pid] int32_positions [OF n]
    by (simp only: rem' length_map)
  have fixed: "renum 0 ?rem' y = y" if "y \<in> set ?rows'" for y
  proof (rule renum_fixed)
    show "distinct (map ID ?rem')" by (rule distinct_ID_remaining [OF dist'])
    show "\<forall>j<length ?rem'. Sequence (?rem' ! j) = int32 (int (0 + j) + 1)"
    proof (intro allI impI)
      fix j assume j: "j < length ?rem'"
      then have "Sequence (?rem' ! j) = map Sequence ?rem' ! j" by simp
      also have "\<dots> = int32 (int j + 1)" using j by (simp only: seqs) simp
      finally show "Sequence (?rem' ! j) = int32 (int (0 + j) + 1)" by simp
    qed
    show "\<forall>s\<in>set ?rem'. ID s = ID y \<longrightarrow> s = y"
    proof (intro ballI impI)
      fix s assume "s \<in> set ?rem'" "ID s = ID y"
      moreover from this(1) have "s \<in> set ?rows'" by (simp only: set_remaining) simp
      ultimately show "s = y" using dist' that by (metis same_ID_same_row)
    qed
  qed
  then have "map (renum 0 ?rem') ?rows' = ?rows'" by (rule map_idI)
  moreover have "map ID ?rem' = map ID ?rem"
    unfolding rem' by (rule map_ID_frame) (rule ID_renum)
  ultimately show ?thesis by (simp only: rows' second fst_conv snd_conv)
qed

theorem resequence_twice_witness:
  "fst (resequence ''P'' (project_states board4_soft_deleted_B)) = project_states board4_without_B
   \<and> fst (resequence ''P'' (fst (resequence ''P'' (project_states board4_soft_deleted_B))))
       = project_states board4_without_B
   \<and> snd (resequence ''P'' (fst (resequence ''P'' (project_states board4_soft_deleted_B))))
       = [''A'', ''C'', ''D'']"
proof -
  have h1: "distinct (map ID (project_states board4_soft_deleted_B))"
    by (simp add: board_defs fixture_defs)
  have h2: "length (project_states board4_soft_deleted_B) < 2147483648"
    by (simp add: board_defs fixture_defs)
  have first: "fst (resequence ''P'' (project_states board4_soft_deleted_B)) = project_states board4_without_B"
    by (simp add: board_defs fixture_defs resequence_def remainingStates_def live_in_def int32_def)
  have rem: "map ID (remainingStates ''P'' (project_states board4_soft_deleted_B)) = [''A'', ''C'', ''D'']"
    by (simp add: board_defs fixture_defs remainingStates_def live_in_def)
  from resequence_twice [OF h1 h2, of "''P''"]
  have "fst (resequence ''P'' (fst (resequence ''P'' (project_states board4_soft_deleted_B))))
          = fst (resequence ''P'' (project_states board4_soft_deleted_B))"
    and "snd (resequence ''P'' (fst (resequence ''P'' (project_states board4_soft_deleted_B))))
          = [''A'', ''C'', ''D'']"
    unfolding rem by blast+
  with first show ?thesis by simp
qed

text \<open>
  C9 as stated fails in its last part: the second run on a project whose single live state
  already holds sequence 1 saves that state again.
\<close>

theorem resequence_second_run_saves:
  "snd (resequence ''P'' (fst (resequence ''P'' [state_row ''A'' 1 None, state_row ''B'' 2 (Some 7)])))
     = [''A'']"
  by (simp add: fixture_defs resequence_def remainingStates_def live_in_def int32_def)

subsection \<open>Explicit reorder\<close>

text \<open>
  C3, as the code has it. A reorder list with an id that no row of the project has is
  refused with "not found" and leaves every table as it was. A list whose ids all name
  live states of the project is applied and committed as it stands, also when it leaves
  states out or repeats an id: every listed row gets one plus the position of the last
  occurrence of its id, every other row keeps its sequence. The list \<open>[C, A, B]\<close> on
  states at 1, 2, 3 gives \<open>C\<close> 1, \<open>A\<close> 2 and \<open>B\<close> 3.
\<close>

theorem UpdateProjectStatesSequence_outcome:
  assumes "role_ok role" and "distinct (map ID (project_states d))"
  shows "((\<exists>k\<in>set ids. \<not> (\<exists>s\<in>set (project_states d). ID s = k \<and> ProjectID s = pid)) \<longrightarrow>
            UpdateProjectStatesSequence role pid ids d = (StatusNotFound, d))
       \<and> ((\<forall>k\<in>set ids. \<exists>s\<in>set (project_states d). ID s = k \<and> live_in pid s) \<longrightarrow>
            UpdateProjectStatesSequence role pid ids d =
              (StatusOK, d\<lparr>project_states := map (reordered ids pid) (project_states d)\<rparr>))"
proof (intro conjI impI)
  assume "\<exists>k\<in>set ids. \<not> (\<exists>s\<in>set (project_states d). ID s = k \<and> ProjectID s = pid)"
  with assms show "UpdateProjectStatesSequence role pid ids d = (StatusNotFound, d)"
    by (rule Update_refused)
next
  assume "\<forall>k\<in>set ids. \<exists>s\<in>set (project_states d). ID s = k \<and> live_in pid s"
  then have "\<forall>k\<in>set ids. \<exists>s\<in>set (project_states d). ID s = k \<and> ProjectID s = pid"
    unfolding live_in_def by blast
  with assms show "UpdateProjectStatesSequence role pid ids d =
      (StatusOK, d\<lparr>project_states := map (reordered ids pid) (project_states d)\<rparr>)"
    by (rule Update_applied)
qed

theorem UpdateProjectStatesSequence_outcome_witness:
  "role_ok (Some ''Owner'') \<and> distinct (map ID (project_states board3))
   \<and> UpdateProjectStatesSequence (Some ''Owner'') ''P'' [''C'', ''Z''] board3 = (StatusNotFound, board3)
   \<and> UpdateProjectStatesSequence (Some ''Owner'') ''P'' [''C'', ''A'', ''B''] board3 =
       (StatusOK, board [state_row ''A'' 2 None, state_row ''B'' 3 None, state_row ''C'' 1 None])"
proof -
  have h1: "role_ok (Some ''Owner'')" by (simp add: role_ok_def)
  have h2: "distinct (map ID (project_states board3))" by (simp add: board3_def fixture_defs)
  have missing: "\<exists>k\<in>set [''C'', ''Z'']. \<not> (\<exists>s\<in>set (project_states board3). ID s = k \<and> ProjectID s = ''P'')"
    by (simp add: board3_def fixture_defs)
  have found: "\<forall>k\<in>set [''C'', ''A'', ''B'']. \<exists>s\<in>set (project_states board3). ID s = k \<and> live_in ''P'' s"
    by (simp add: board3_def fixture_defs live_in_def)
  have rows: "board3\<lparr>project_states := map (reordered [''C'', ''A'', ''B''] ''P'') (project_states board3)\<rparr>
              = board [state_row ''A'' 2 None, state_row ''B'' 3 None, state_row ''C'' 1 None]"
    by (simp add: board3_def fixture_defs reordered_def int32_def)
  from UpdateProjectStatesSequence_outcome [OF h1 h2, of "[''C'', ''Z'']" "''P''"] missing
  have a: "UpdateProjectStatesSequence (Some ''Owner'') ''P'' [''C'', ''Z''] board3 = (StatusNotFound, board3)"
    by blast
  from UpdateProjectStatesSequence_outcome [OF h1 h2, of "[''C'', ''A'', ''B'']" "''P''"] found
  have b: "UpdateProjectStatesSequence (Some ''Owner'') ''P'' [''C'', ''A'', ''B''] board3 =
       (StatusOK, board [state_row ''A'' 2 None, state_row ''B'' 3 None, state_row ''C'' 1 None])"
    unfolding rows by blast
  from h1 h2 a b show ?thesis by blast
qed

text \<open>
  C3 as stated fails: the list \<open>[C]\<close>, which leaves out \<open>A\<close> and \<open>B\<close>, is committed and
  moves \<open>C\<close> from 3 to 1; the list \<open>[C, C]\<close> is committed and moves \<open>C\<close> to 2.
\<close>

theorem UpdateProjectStatesSequence_partial_applied:
  "UpdateProjectStatesSequence (Some ''Owner'') ''P'' [''C''] board3 =
     (StatusOK, board [state_row ''A'' 1 None, state_row ''B'' 2 None, state_row ''C'' 1 None])
   \<and> UpdateProjectStatesSequence (Some ''Owner'') ''P'' [''C'', ''C''] board3 =
     (StatusOK, board [state_row ''A'' 1 None, state_row ''B'' 2 None, state_row ''C'' 2 None])"
  by (simp add: board3_def fixture_defs update_defs)

text \<open>
  C7. The reorder list \<open>[B, A]\<close> names the soft-deleted state \<open>B\<close>. The claim asks for
  "not found" and unchanged sequences; the handler answers 200, gives the deleted row
  sequence 1 and leaves the only live state at 2.
\<close>

theorem UpdateProjectStatesSequence_accepts_removed_state:
  "UpdateProjectStatesSequence (Some ''Owner'') ''P'' [''B'', ''A''] board_with_removed =
     (StatusOK, board [state_row ''A'' 2 None, state_row ''B'' 1 (Some 5)])"
  by (simp add: board_with_removed_def fixture_defs update_defs)

subsection \<open>Creating a state\<close>

text \<open>
  C2. On a project with one live state at sequence 1 and one soft-deleted state, the claim
  asks for sequence 2 for a new state; the handler counts the soft-deleted row as well and
  assigns 3.
\<close>

theorem CreateProjectState_counts_removed_states:
  "CreateProjectState (Some ''Owner'') ''P'' ''C'' ''owner'' ''C'' board_with_removed =
     (StatusCreated, board [state_row ''A'' 1 None, state_row ''B'' 2 (Some 5), state_row ''C'' 3 None])
   \<and> spec_next_sequence ''P'' board_with_removed = 2"
  by (simp add: board_with_removed_def fixture_defs CreateProjectState_def role_ok_def
        existingCount_def int32_def spec_next_sequence_def live_states_def live_in_def)

subsection \<open>Density of the sequences\<close>

text \<open>
  C1, as the code has it, on a table with unique keys and fewer than \<open>2^31 - 1\<close> rows.
  After \<open>DeleteProjectStateByID\<close> succeeds, the sequences of the live states of the
  project are exactly 1, ..., N. After \<open>UpdateProjectStatesSequence\<close> succeeds with a list
  that names every live state of the project exactly once and nothing else, they are
  exactly 1, ..., N. After \<open>CreateProjectState\<close> succeeds on a project without soft-deleted
  states whose live states hold 1, ..., N, they are exactly 1, ..., N + 1.
\<close>

theorem dense_after_state_operations:
  assumes "distinct (map ID (project_states d))" and "length (project_states d) < 2147483647"
  shows "(DeleteProjectStateByID role pid sid now d = (StatusNoContent, d1) \<longrightarrow> dense pid d1)
       \<and> (UpdateProjectStatesSequence role pid ids d = (StatusOK, d2) \<and> distinct ids
            \<and> set ids = set (map ID (live_states pid d)) \<longrightarrow> dense pid d2)
       \<and> (CreateProjectState role pid req_name email newID d = (StatusCreated, d3) \<and> dense pid d
            \<and> (\<forall>s\<in>set (project_states d). ProjectID s = pid \<longrightarrow> DeletedAt s = None)
          \<longrightarrow> dense pid d3)"
proof -
  from assms(2) have len: "length (project_states d) < 2147483648" by simp
  show ?thesis
    using dense_after_delete [OF assms(1) len] dense_after_update [OF assms(1) len]
      dense_after_create [OF assms(2)]
    by blast
qed

theorem dense_after_state_operations_witness:
  "DeleteProjectStateByID (Some ''Owner'') ''P'' ''B'' 7 board4 = (StatusNoContent, board4_without_B)
   \<and> dense ''P'' board4_without_B
   \<and> UpdateProjectStatesSequence (Some ''Owner'') ''P'' [''D'', ''C'', ''B'', ''A''] board4
       = (StatusOK, board4_reversed)
   \<and> dense ''P'' board4_reversed
   \<and> CreateProjectState (Some ''Owner'') ''P'' ''E'' ''owner'' ''E'' board4 = (StatusCreated, board5)
   \<and> dense ''P'' board5"
proof -
  have h1: "distinct (map ID (project_states board4))"
    by (simp add: board_defs fixture_defs)
  have h2: "length (project_states board4) < 2147483647"
    by (simp add: board_defs fixture_defs)
  have del: "DeleteProjectStateByID (Some ''Owner'') ''P'' ''B'' 7 board4 = (StatusNoContent, board4_without_B)"
    by (simp add: board_defs fixture_defs handler_defs)
  have upd: "UpdateProjectStatesSequence (Some ''Owner'') ''P'' [''D'', ''C'', ''B'', ''A''] board4
       = (StatusOK, board4_reversed)"
    by (simp add: board_defs fixture_defs handler_defs)
  have ids: "distinct [''D'', ''C'', ''B'', ''A'']" by simp
  have all: "set [''D'', ''C'', ''B'', ''A''] = set (map ID (live_states ''P'' board4))"
    by (auto simp: board_defs fixture_defs live_states_def live_in_def)
  have cre: "CreateProjectState (Some ''Owner'') ''P'' ''E'' ''owner'' ''E'' board4 = (StatusCreated, board5)"
    by (simp add: board_defs fixture_defs handler_defs)
  have "[1..(4::int)] = [1, 2, 3, 4]" by (simp add: upto.simps)
  then have dns: "dense ''P'' board4"
    by (simp add: board_defs fixture_defs dense_def live_states_def live_in_def)
  have live: "\<forall>s\<in>set (project_states board4). ProjectID s = ''P'' \<longrightarrow> DeletedAt s = None"
    by (simp add: board_defs fixture_defs)
  note t = dense_after_state_operations [OF h1 h2, of "Some ''Owner''" "''P''" "''B''" 7
      board4_without_B "[''D'', ''C'', ''B'', ''A'']" board4_reversed "''E''" "''owner''" "''E''" board5]
  from t del have "dense ''P'' board4_without_B" by blast
  moreover from t upd ids all have "dense ''P'' board4_reversed" by blast
  moreover from t cre dns live have "dense ''P'' board5" by blast
  ultimately show ?thesis using del upd cre by blast
qed

text \<open>
  C1 as stated fails: the reorder list \<open>[B]\<close> on states at 1, 2, 3 is committed and
  leaves the live states at 1, 1, 3.
\<close>

theorem UpdateProjectStatesSequence_breaks_density:
  "UpdateProjectStatesSequence (Some ''Owner'') ''P'' [''B''] board3 =
     (StatusOK, board [state_row ''A'' 1 None, state_row ''B'' 1 None, state_row ''C'' 3 None])
   \<and> \<not> dense ''P'' (board [state_row ''A'' 1 None, state_row ''B'' 1 None, state_row ''C'' 3 None])"
proof -
  have "[1..(3::int)] = [1, 2, 3]" by (simp add: upto.simps)
  then show ?thesis
    by (simp add: board3_def fixture_defs update_defs dense_def live_states_def live_in_def)
qed

subsection \<open>Issue numbers\<close>

text \<open>
  C5, as the code has it. When \<open>CreateIssue\<close> succeeds on a project whose live issues
  hold 32-bit numbers below \<open>2^31 - 1\<close>, the table of issues grows by one live issue of
  the project with the key the store chose, and its \<open>SequenceID\<close> is \<open>M + 1\<close>, where \<open>M\<close>
  is the largest \<open>SequenceID\<close> among the live issues of the project before, and 0 when
  there was none.
\<close>

theorem CreateIssue_next_sequence:
  assumes "CreateIssue authorized pid req newID d = (StatusCreated, d')"
    and "\<forall>i\<in>set (live_issues pid d). - 2147483648 \<le> SequenceID i \<and> SequenceID i < 2147483647"
  shows "\<exists>issue. issues d' = issues d @ [issue] \<and> IssueID issue = newID
           \<and> IssueProjectID issue = pid \<and> IssueDeletedAt issue = None
           \<and> SequenceID issue = spec_max_sequence pid d + 1"
  using assms by (rule CreateIssue_appends)

theorem CreateIssue_next_sequence_witness:
  "CreateIssue True ''P'' (issue_request ''I3'' ''A'') ''I3'' board3_with_issues =
     (StatusCreated, board3_with_issues\<lparr>issues := issues board3_with_issues @ [issue_row ''I3'' ''A'' 4 None]\<rparr>)
   \<and> spec_max_sequence ''P'' board3_with_issues = 3"
proof -
  have h1: "CreateIssue True ''P'' (issue_request ''I3'' ''A'') ''I3'' board3_with_issues =
     (StatusCreated, board3_with_issues\<lparr>issues := issues board3_with_issues @ [issue_row ''I3'' ''A'' 4 None]\<rparr>)"
    by (simp add: issue_defs board_defs fixture_defs)
  have h2: "\<forall>i\<in>set (live_issues ''P'' board3_with_issues).
              - 2147483648 \<le> SequenceID i \<and> SequenceID i < 2147483647"
    by (simp add: live_issues_def issue_defs board_defs fixture_defs)
  from CreateIssue_next_sequence [OF h1 h2]
  have "spec_max_sequence ''P'' board3_with_issues + 1 = 4"
    by (simp add: issue_row_def)
  with h1 show ?thesis by simp
qed

text \<open>
  C5 as stated fails for the largest \<open>M\<close>: the field is a 32-bit integer, so with a live
  issue at \<open>2^31 - 1\<close> the handler computes \<open>2^31\<close>, the conversion wraps, and the new
  issue is stored with \<open>- 2^31\<close>.
\<close>

theorem CreateIssue_wraps_at_last_number:
  "CreateIssue True ''P'' (issue_request ''I2'' ''A'') ''I2'' board3_at_last_number =
     (StatusCreated,
      board3_at_last_number\<lparr>issues := [issue_row ''I1'' ''A'' 2147483647 None,
                                         issue_row ''I2'' ''A'' (- 2147483648) None]\<rparr>)
   \<and> spec_max_sequence ''P'' board3_at_last_number = 2147483647"
  by (simp add: board3_at_last_number_def issue_defs board_defs fixture_defs
        spec_max_sequence_def live_issues_def)

text \<open>
  C6, as the code has it. Through every history of \<open>CreateIssue\<close> and \<open>DeleteIssue\<close>
  requests, no two live issues of a project hold the same \<open>SequenceID\<close>, when that is so
  at the start and the numbers stay 32-bit values.
\<close>

theorem live_issue_numbers_distinct:
  assumes "distinct (map SequenceID (live_issues q d))"
    and "\<forall>i\<in>set (live_issues q d). - 2147483648 \<le> SequenceID i \<and> SequenceID i \<le> B"
    and "0 \<le> B" and "B + int (length ops) < 2147483648"
  shows "distinct (map SequenceID (live_issues q (apply_issue_ops ops d)))"
proof -
  from assms(1,2) have "numbered q B d" by (simp add: numbered_def)
  from numbered_apply_issue_ops [OF this assms(3,4)] show ?thesis by (simp add: numbered_def)
qed

theorem live_issue_numbers_distinct_witness:
  "issues (apply_issue_ops issue_history board3_with_issues) =
      [issue_row ''I1'' ''A'' 3 None, issue_row ''I2'' ''A'' 7 (Some 4),
       issue_row ''I3'' ''A'' 4 (Some 9), issue_row ''I4'' ''A'' 4 None]
   \<and> distinct (map SequenceID (live_issues ''P'' (apply_issue_ops issue_history board3_with_issues)))"
proof -
  have h1: "distinct (map SequenceID (live_issues ''P'' board3_with_issues))"
    by (simp add: live_issues_def issue_defs board_defs fixture_defs)
  have h2: "\<forall>i\<in>set (live_issues ''P'' board3_with_issues).
              - 2147483648 \<le> SequenceID i \<and> SequenceID i \<le> 3"
    by (simp add: live_issues_def issue_defs board_defs fixture_defs)
  have h3: "(0::int) \<le> 3" by simp
  have h4: "3 + int (length issue_history) < 2147483648"
    by (simp add: issue_history_def)
  have run: "issues (apply_issue_ops issue_history board3_with_issues) =
      [issue_row ''I1'' ''A'' 3 None, issue_row ''I2'' ''A'' 7 (Some 4),
       issue_row ''I3'' ''A'' 4 (Some 9), issue_row ''I4'' ''A'' 4 None]"
    by (simp add: issue_history_def issue_defs board_defs fixture_defs)
  from live_issue_numbers_distinct [OF h1 h2 h3 h4] run show ?thesis by blast
qed

text \<open>
  C6 as stated fails: create an issue, delete it, create another. The maximum is taken
  over live issues only, so the second issue gets the number 1 of the deleted one.
\<close>

theorem issue_number_reused:
  "issues (apply_issue_ops issue_history board3) =
     [issue_row ''I3'' ''A'' 1 (Some 9), issue_row ''I4'' ''A'' 1 None]"
  by (simp add: issue_history_def issue_defs board_defs fixture_defs)

end
